theory Spec2Isabelle
  imports Main "HOL-Library.Word"
begin

section \<open>Data model\<close>

text \<open>
  Bytes are 8-bit words. Strings are character lists. The exceptions are the Python
  exception classes that the modelled calls of \<^verbatim>\<open>server.py\<close> can raise; the
  subclasses of \<^verbatim>\<open>requests.RequestException\<close> are kept apart, since one
  \<^verbatim>\<open>except requests.RequestException\<close> clause catches all of them.
\<close>

type_synonym byte = "8 word"

datatype request_error = ConnectionError | Timeout | InvalidURL | OtherRequestError

datatype exn = ValueError | OSError | RequestException request_error

text \<open>
  Everything the program does to the outside world is recorded as an event, in the order
  in which it happens. A probe event carries what the outside world answered.
\<close>

datatype event =
    SocketOpened
  | BroadcastEnabled
  | SentTo "byte list" string nat
  | SocketClosed
  | Printed string
  | Slept nat
  | Ping "string list" "exn + int"
  | HttpGet string nat "exn + nat"

text \<open>
  The environment holds the library and operating-system calls that \<^verbatim>\<open>server.py\<close>
  uses and does not define. The calls that touch the network may answer differently every
  time: they are functions of the whole history of events so far.
  \<^item> \<open>ip_address\<close>: \<^verbatim>\<open>ipaddress.ip_address(value)\<close>; \<open>False\<close> stands for its
    \<^verbatim>\<open>ValueError\<close>, the only exception it raises on a string.
  \<^item> \<open>urlparse\<close>: the \<^verbatim>\<open>scheme\<close> field of \<^verbatim>\<open>urlparse(target)\<close>, or the
    exception raised.
  \<^item> \<open>subprocess_call\<close>: the exit code of \<^verbatim>\<open>subprocess.call(command, ...)\<close>, or the
    exception raised when the command cannot be started.
  \<^item> \<open>requests_get\<close>: the status code of \<^verbatim>\<open>requests.get(url, timeout=t)\<close>, or the
    exception raised.
  \<^item> \<open>socket_socket\<close>, \<open>setsockopt\<close>, \<open>sendto\<close>: the exception the socket call raises,
    if any.
\<close>

record env =
  ip_address :: "string \<Rightarrow> bool"
  urlparse :: "string \<Rightarrow> exn + string"
  subprocess_call :: "event list \<Rightarrow> string list \<Rightarrow> exn + int"
  requests_get :: "event list \<Rightarrow> string \<Rightarrow> nat \<Rightarrow> exn + nat"
  socket_socket :: "event list \<Rightarrow> exn option"
  setsockopt :: "event list \<Rightarrow> exn option"
  sendto :: "event list \<Rightarrow> byte list \<Rightarrow> string \<Rightarrow> nat \<Rightarrow> exn option"

section \<open>Wake signaler\<close>

text \<open>
  Python's \<^verbatim>\<open>bytes.fromhex\<close>: ASCII whitespace (space, and the codes 9 to 13) is
  skipped in front of a byte, never between the two digits of one; a character that is not
  a hexadecimal digit (\<^verbatim>\<open>0-9\<close> are the codes 48 to 57, \<^verbatim>\<open>a-f\<close> 97 to 102,
  \<^verbatim>\<open>A-F\<close> 65 to 70), or a digit left alone at the end, raises \<^verbatim>\<open>ValueError\<close>.
\<close>

definition is_space :: "char \<Rightarrow> bool" where
  "is_space c = (let n = (of_char c :: nat) in n = 32 \<or> (9 \<le> n \<and> n \<le> 13))"

definition digit_value :: "char \<Rightarrow> nat option" where
  "digit_value c =
     (let n = (of_char c :: nat) in
      if 48 \<le> n \<and> n \<le> 57 then Some (n - 48)
      else if 97 \<le> n \<and> n \<le> 102 then Some (n - 87)
      else if 65 \<le> n \<and> n \<le> 70 then Some (n - 55)
      else None)"

fun fromhex :: "string \<Rightarrow> exn + byte list" where
  "fromhex [] = Inr []"
| "fromhex [c] = (if is_space c then Inr [] else Inl ValueError)"
| "fromhex (c # d # cs) =
     (if is_space c then fromhex (d # cs)
      else case digit_value c of
        None \<Rightarrow> Inl ValueError
      | Some hi \<Rightarrow>
          (case digit_value d of
             None \<Rightarrow> Inl ValueError
           | Some lo \<Rightarrow>
               (case fromhex cs of
                  Inl e \<Rightarrow> Inl e
                | Inr bs \<Rightarrow> Inr (of_nat (16 * hi + lo) # bs))))"

text \<open>
  Line 61, \<^verbatim>\<open>mac_address.replace(":", "").replace("-", "")\<close>: every colon is removed,
  then every hyphen.
\<close>

definition strip_separators :: "string \<Rightarrow> string" where
  "strip_separators mac_address =
     filter (\<lambda>c. c \<noteq> CHR ''-'') (filter (\<lambda>c. c \<noteq> CHR '':'') mac_address)"

text \<open>Line 67, \<^verbatim>\<open>bytes.fromhex('FF' * 6 + mac_address * 16)\<close>.\<close>

definition magic_packet :: "string \<Rightarrow> exn + byte list" where
  "magic_packet mac_address =
     fromhex (concat (replicate 6 ''FF'') @ concat (replicate 16 mac_address))"

text \<open>
  \<^verbatim>\<open>wake_on_lan\<close>. The \<^verbatim>\<open>with\<close> block closes the socket on every way out of it,
  also when \<^verbatim>\<open>setsockopt\<close> or \<^verbatim>\<open>sendto\<close> raises.
\<close>

definition wake_on_lan :: "env \<Rightarrow> string \<Rightarrow> event list \<Rightarrow> (exn + unit) \<times> event list" where
  "wake_on_lan e mac_address0 tr =
     (let mac_address = strip_separators mac_address0 in
      if length mac_address \<noteq> 12 then (Inl ValueError, tr)
      else case magic_packet mac_address of
        Inl x \<Rightarrow> (Inl x, tr)
      | Inr data \<Rightarrow>
          (case socket_socket e tr of
             Some x \<Rightarrow> (Inl x, tr)
           | None \<Rightarrow>
               (let tr1 = tr @ [SocketOpened] in
                case setsockopt e tr1 of
                  Some x \<Rightarrow> (Inl x, tr1 @ [SocketClosed])
                | None \<Rightarrow>
                    (let tr2 = tr1 @ [BroadcastEnabled] in
                     case sendto e tr2 data ''<broadcast>'' 9 of
                       Some x \<Rightarrow> (Inl x, tr2 @ [SocketClosed])
                     | None \<Rightarrow>
                         (Inr (),
                          tr2 @ [SentTo data ''<broadcast>'' 9, SocketClosed,
                                 Printed (''Magic packet sent to '' @ mac_address)])))))"

section \<open>Reachability prober\<close>

text \<open>
  \<^verbatim>\<open>_is_ip_address\<close>: \<^verbatim>\<open>True\<close> when \<^verbatim>\<open>ipaddress.ip_address(value)\<close> returns,
  \<^verbatim>\<open>False\<close> when it raises \<^verbatim>\<open>ValueError\<close>.
\<close>

definition is_ip_address :: "env \<Rightarrow> string \<Rightarrow> bool" where
  "is_ip_address e v = (if ip_address e v then True else False)"

text \<open>
  \<^verbatim>\<open>is_online\<close>. The call of \<^verbatim>\<open>subprocess.call\<close> and the call of \<^verbatim>\<open>urlparse\<close>
  stand outside every \<^verbatim>\<open>try\<close>, so what they raise leaves the function; the
  \<^verbatim>\<open>try\<close> around \<^verbatim>\<open>requests.get\<close> catches \<^verbatim>\<open>requests.RequestException\<close> only.
\<close>

definition is_online :: "env \<Rightarrow> string \<Rightarrow> event list \<Rightarrow> (exn + bool) \<times> event list" where
  "is_online e target tr =
     (if is_ip_address e target then
        (let param = ''-c'';
             command = [''ping'', param, ''1'', ''-W'', ''1'', target];
             r = subprocess_call e tr command
         in case r of
              Inl x \<Rightarrow> (Inl x, tr @ [Ping command r])
            | Inr code \<Rightarrow> (Inr (code = 0), tr @ [Ping command r]))
      else case urlparse e target of
        Inl x \<Rightarrow> (Inl x, tr)
      | Inr scheme \<Rightarrow>
          (let url = (if scheme = [] then ''http://'' @ target else target);
               r = requests_get e tr url 1
           in case r of
                Inr status_code \<Rightarrow> (Inr (status_code = 200), tr @ [HttpGet url 1 r])
              | Inl (RequestException k) \<Rightarrow> (Inr False, tr @ [HttpGet url 1 r])
              | Inl x \<Rightarrow> (Inl x, tr @ [HttpGet url 1 r])))"

section \<open>Request handlers\<close>

datatype jvalue = JStr string | JBool bool

type_synonym response = "(string \<times> jvalue) list \<times> nat"

text \<open>
  A handler with a loop is run with fuel, the number of times each of its loops may test
  its condition; a run that needs more ends in \<open>OutOfFuel\<close>, with the events it got to.
\<close>

datatype 'a outcome = Returned 'a | Raised exn | OutOfFuel

definition AI_SERVER_MAC :: string where
  "AI_SERVER_MAC = ''D8:CB:8A:40:15:E5''"

text \<open>
  The two loops of \<^verbatim>\<open>api_log_redirect\<close> have one shape,
  \<^verbatim>\<open>while not is_online(target): time.sleep(1); print(msg)\<close>.
\<close>

fun wait_online :: "env \<Rightarrow> string \<Rightarrow> string \<Rightarrow> nat \<Rightarrow> event list \<Rightarrow> unit outcome \<times> event list" where
  "wait_online e target msg 0 tr = (OutOfFuel, tr)"
| "wait_online e target msg (Suc fuel) tr =
     (case is_online e target tr of
        (Inl x, tr') \<Rightarrow> (Raised x, tr')
      | (Inr online, tr') \<Rightarrow>
          (if \<not> online then wait_online e target msg fuel (tr' @ [Slept 1, Printed msg])
           else (Returned (), tr')))"

text \<open>
  The body of \<^verbatim>\<open>api_log_redirect\<close>, with the value of the module global
  \<^verbatim>\<open>AI_SERVER_MAC\<close>, read when the handler runs, as an argument.
\<close>

definition api_log_redirect_with ::
  "string \<Rightarrow> env \<Rightarrow> nat \<Rightarrow> event list \<Rightarrow> response outcome \<times> event list" where
  "api_log_redirect_with mac e fuel tr =
     (case wake_on_lan e mac tr of
        (Inl x, tr1) \<Rightarrow> (Raised x, tr1)
      | (Inr u, tr1) \<Rightarrow>
          (case wait_online e ''192.168.23.22''
                  ''Waiting for AI server to come online...'' fuel tr1 of
             (Raised x, tr2) \<Rightarrow> (Raised x, tr2)
           | (OutOfFuel, tr2) \<Rightarrow> (OutOfFuel, tr2)
           | (Returned u1, tr2) \<Rightarrow>
               (case wait_online e ''openwebui.illerit.de''
                       ''Waiting for AI Web UI to come online...'' fuel tr2 of
                  (Raised x, tr3) \<Rightarrow> (Raised x, tr3)
                | (OutOfFuel, tr3) \<Rightarrow> (OutOfFuel, tr3)
                | (Returned u2, tr3) \<Rightarrow>
                    (Returned ([(''status'', JStr ''ok''), (''logged'', JBool True)], 200), tr3))))"

definition api_log_redirect :: "env \<Rightarrow> nat \<Rightarrow> event list \<Rightarrow> response outcome \<times> event list" where
  "api_log_redirect = api_log_redirect_with AI_SERVER_MAC"

text \<open>\<^verbatim>\<open>api_web_ui_status\<close>: no \<^verbatim>\<open>try\<close>, so what \<^verbatim>\<open>is_online\<close> raises leaves the handler.\<close>

definition api_web_ui_status :: "env \<Rightarrow> string \<Rightarrow> event list \<Rightarrow> (exn + response) \<times> event list" where
  "api_web_ui_status e ip tr =
     (case is_online e ip tr of
        (Inl x, tr') \<Rightarrow> (Inl x, tr')
      | (Inr online, tr') \<Rightarrow> (Inr ([(''online'', JBool online)], 200), tr'))"

section \<open>Observations on event histories\<close>

fun is_probe :: "event \<Rightarrow> bool" where
  "is_probe (Ping command r) = True"
| "is_probe (HttpGet url t r) = True"
| "is_probe ev = False"

fun is_send :: "event \<Rightarrow> bool" where
  "is_send (SentTo d h p) = True"
| "is_send ev = False"

fun is_sleep :: "event \<Rightarrow> bool" where
  "is_sleep (Slept n) = True"
| "is_sleep ev = False"

text \<open>The probe is one of those \<^verbatim>\<open>is_online(t)\<close> makes: the ping of \<open>t\<close>, or the GET of \<open>t\<close>
  with or without the default scheme.\<close>

fun probe_matches :: "string \<Rightarrow> event \<Rightarrow> bool" where
  "probe_matches t (Ping command r) = (command = [''ping'', ''-c'', ''1'', ''-W'', ''1'', t])"
| "probe_matches t (HttpGet url n r) = (url = t \<or> url = ''http://'' @ t)"
| "probe_matches t ev = False"

text \<open>The probe found its target reachable: exit code 0, or status code 200.\<close>

fun reported_reachable :: "event \<Rightarrow> bool" where
  "reported_reachable (Ping command r) = (r = Inr 0)"
| "reported_reachable (HttpGet url n r) = (r = Inr 200)"
| "reported_reachable ev = False"

definition probe_log :: "string \<Rightarrow> event list \<Rightarrow> bool list" where
  "probe_log t tr = map reported_reachable (filter (probe_matches t) tr)"

fun sent_payloads :: "event list \<Rightarrow> byte list list" where
  "sent_payloads [] = []"
| "sent_payloads (SentTo d h p # evs) = d # sent_payloads evs"
| "sent_payloads (ev # evs) = sent_payloads evs"

text \<open>
  A history follows a poll plan when each of its probes is a probe of the first target of
  the plan that has not yet been reported reachable.
\<close>

fun follows_plan :: "string list \<Rightarrow> event list \<Rightarrow> bool" where
  "follows_plan ts [] = True"
| "follows_plan ts (ev # evs) =
     (if \<not> is_probe ev then follows_plan ts evs
      else case ts of
        [] \<Rightarrow> False
      | t # ts' \<Rightarrow>
          probe_matches t ev \<and> follows_plan (if reported_reachable ev then ts' else t # ts') evs)"

definition valid_mac :: "string \<Rightarrow> bool" where
  "valid_mac m = (length m = 12 \<and> list_all (\<lambda>c. digit_value c \<noteq> None) m)"

text \<open>The ASCII case mappings of \<^verbatim>\<open>str.upper\<close> and \<^verbatim>\<open>str.lower\<close>:
  \<^verbatim>\<open>a-z\<close> are the codes 97 to 122, \<^verbatim>\<open>A-Z\<close> 65 to 90.\<close>

definition upper_char :: "char \<Rightarrow> char" where
  "upper_char c =
     (let n = (of_char c :: nat) in if 97 \<le> n \<and> n \<le> 122 then char_of (n - 32) else c)"

definition lower_char :: "char \<Rightarrow> char" where
  "lower_char c =
     (let n = (of_char c :: nat) in if 65 \<le> n \<and> n \<le> 90 then char_of (n + 32) else c)"

section \<open>Concrete environments\<close>

text \<open>
  Environments to run the model on concrete inputs. In \<open>env_up\<close> every socket call
  succeeds and every probe finds its target at once; the others differ from it in one call:
  in \<open>env_third_ping\<close> the first two pings of a history fail, in \<open>env_no_ping\<close> the
  \<^verbatim>\<open>ping\<close> command cannot be started, in \<open>env_404\<close> every GET is answered with 404,
  in \<open>env_timeout\<close> every GET times out, in \<open>env_bad_label\<close> the GET of
  \<^verbatim>\<open>http://a..b\<close> raises \<^verbatim>\<open>ValueError\<close> (the host name has an empty label:
  urllib3's \<^verbatim>\<open>LocationParseError\<close>, a \<^verbatim>\<open>ValueError\<close> that \<^verbatim>\<open>requests\<close> lets through).
\<close>

definition env_up :: env where
  "env_up =
     \<lparr>ip_address = (\<lambda>s. s = ''192.168.23.22'' \<or> s = ''203.0.113.5''),
      urlparse = (\<lambda>s. Inr []),
      subprocess_call = (\<lambda>tr command. Inr 0),
      requests_get = (\<lambda>tr url t. Inr 200),
      socket_socket = (\<lambda>tr. None),
      setsockopt = (\<lambda>tr. None),
      sendto = (\<lambda>tr d h p. None)\<rparr>"

definition env_third_ping :: env where
  "env_third_ping =
     env_up\<lparr>subprocess_call :=
       (\<lambda>tr command. if length (filter is_probe tr) < 2 then Inr 1 else Inr 0)\<rparr>"

definition env_no_ping :: env where
  "env_no_ping = env_up\<lparr>subprocess_call := (\<lambda>tr command. Inl OSError)\<rparr>"

definition env_404 :: env where
  "env_404 = env_up\<lparr>requests_get := (\<lambda>tr url t. Inr 404)\<rparr>"

text \<open>The events of \<^verbatim>\<open>wake_on_lan(AI_SERVER_MAC)\<close> when every socket call succeeds.\<close>

definition wake_events :: "event list" where
  "wake_events =
     [SocketOpened, BroadcastEnabled,
      SentTo (replicate 6 0xFF @ concat (replicate 16 [0xD8, 0xCB, 0x8A, 0x40, 0x15, 0xE5]))
        ''<broadcast>'' 9,
      SocketClosed, Printed ''Magic packet sent to D8CB8A4015E5'']"

definition env_timeout :: env where
  "env_timeout = env_up\<lparr>requests_get := (\<lambda>tr url t. Inl (RequestException Timeout))\<rparr>"

definition env_bad_label :: env where
  "env_bad_label =
     env_up\<lparr>requests_get :=
       (\<lambda>tr url t. if url = ''http://a..b'' then Inl ValueError else Inr 200)\<rparr>"

section \<open>Hexadecimal text and letter case\<close>

lemma space_not_digit: "is_space c \<Longrightarrow> digit_value c = None"
  by (auto simp: is_space_def digit_value_def Let_def)

lemma digit_value_upper: "digit_value (upper_char c) = digit_value c"
  by (auto simp: upper_char_def digit_value_def Let_def)

lemma digit_value_lower: "digit_value (lower_char c) = digit_value c"
  by (auto simp: lower_char_def digit_value_def Let_def)

lemma is_space_upper: "is_space (upper_char c) = is_space c"
  by (auto simp: upper_char_def is_space_def Let_def)

lemma is_space_lower: "is_space (lower_char c) = is_space c"
  by (auto simp: lower_char_def is_space_def Let_def)

lemma upper_char_code:
  "(of_char (upper_char c) :: nat) =
     (if 97 \<le> (of_char c :: nat) \<and> (of_char c :: nat) \<le> 122 then of_char c - 32 else of_char c)"
  by (auto simp: upper_char_def Let_def)

lemma lower_char_code:
  "(of_char (lower_char c) :: nat) =
     (if 65 \<le> (of_char c :: nat) \<and> (of_char c :: nat) \<le> 90 then of_char c + 32 else of_char c)"
  by (auto simp: lower_char_def Let_def)

lemma char_eq_code: "(c = d) = ((of_char c :: nat) = of_char d)"
  by simp

lemma upper_char_sep:
  "(upper_char c = CHR '':'') = (c = CHR '':'')" "(upper_char c = CHR ''-'') = (c = CHR ''-'')"
  unfolding char_eq_code [of _ "CHR '':''"] char_eq_code [of _ "CHR ''-''"] upper_char_code
  by auto

lemma lower_char_sep:
  "(lower_char c = CHR '':'') = (c = CHR '':'')" "(lower_char c = CHR ''-'') = (c = CHR ''-'')"
  unfolding char_eq_code [of _ "CHR '':''"] char_eq_code [of _ "CHR ''-''"] lower_char_code
  by auto

lemma fromhex_map_upper: "fromhex (map upper_char s) = fromhex s"
  by (induction s rule: fromhex.induct) (auto simp: digit_value_upper is_space_upper split: option.splits)

lemma fromhex_map_lower: "fromhex (map lower_char s) = fromhex s"
  by (induction s rule: fromhex.induct) (auto simp: digit_value_lower is_space_lower split: option.splits)

lemma strip_map_upper: "strip_separators (map upper_char s) = map upper_char (strip_separators s)"
  by (induction s) (simp_all add: strip_separators_def upper_char_sep)

lemma strip_map_lower: "strip_separators (map lower_char s) = map lower_char (strip_separators s)"
  by (induction s) (simp_all add: strip_separators_def lower_char_sep)

lemma fromhex_pair:
  "digit_value c = Some hi \<Longrightarrow> digit_value d = Some lo \<Longrightarrow>
   fromhex (c # d # cs) =
     (case fromhex cs of Inl x \<Rightarrow> Inl x | Inr bs \<Rightarrow> Inr (of_nat (16 * hi + lo) # bs))"
  using space_not_digit [of c] by auto

lemma fromhex_digits:
  "list_all (\<lambda>c. digit_value c \<noteq> None) a \<Longrightarrow> even (length a) \<Longrightarrow>
   \<exists>bs. length bs = length a div 2 \<and>
     (\<forall>b. fromhex (a @ b) = (case fromhex b of Inl x \<Rightarrow> Inl x | Inr cs \<Rightarrow> Inr (bs @ cs)))"
proof (induction a rule: fromhex.induct)
  case 1
  show ?case by (rule exI [of _ "[]"]) (simp split: sum.split)
next
  case (2 c)
  then show ?case by simp
next
  case (3 c d cs)
  from "3.prems" obtain hi lo where hl: "digit_value c = Some hi" "digit_value d = Some lo"
    by auto
  from "3.prems" have "list_all (\<lambda>c. digit_value c \<noteq> None) cs" "even (length cs)"
    by simp_all
  with "3.IH"(2) [OF _ hl(1) hl(2)] space_not_digit [of c] hl
  obtain bs where bs: "length bs = length cs div 2"
      "\<And>b. fromhex (cs @ b) = (case fromhex b of Inl x \<Rightarrow> Inl x | Inr cs \<Rightarrow> Inr (bs @ cs))"
    by auto
  show ?case
  proof (rule exI [of _ "of_nat (16 * hi + lo) # bs"], intro conjI allI)
    show "length (of_nat (16 * hi + lo) # bs) = length (c # d # cs) div 2"
      using bs(1) by simp
  next
    fix b
    show "fromhex ((c # d # cs) @ b) =
        (case fromhex b of Inl x \<Rightarrow> Inl x
         | Inr cs \<Rightarrow> Inr ((of_nat (16 * hi + lo) # bs) @ cs))"
      using fromhex_pair [OF hl, of "cs @ b"] bs(2) [of b]
      by (cases "fromhex b") simp_all
  qed
qed

lemma fromhex_Inr:
  assumes "list_all (\<lambda>c. digit_value c \<noteq> None) a" and "even (length a)"
  shows "\<exists>bs. fromhex a = Inr bs \<and> length bs = length a div 2 \<and>
     (\<forall>b. fromhex (a @ b) = (case fromhex b of Inl x \<Rightarrow> Inl x | Inr cs \<Rightarrow> Inr (bs @ cs)))"
proof -
  from fromhex_digits [OF assms] obtain bs where bs: "length bs = length a div 2"
    "\<And>b. fromhex (a @ b) = (case fromhex b of Inl x \<Rightarrow> Inl x | Inr cs \<Rightarrow> Inr (bs @ cs))"
    by blast
  from bs(2) [of "[]"] have "fromhex a = Inr bs" by simp
  with bs show ?thesis by blast
qed

lemma fromhex_replicate:
  assumes "\<And>b. fromhex (a @ b) = (case fromhex b of Inl x \<Rightarrow> Inl x | Inr cs \<Rightarrow> Inr (bs @ cs))"
  shows "fromhex (concat (replicate n a) @ b) =
    (case fromhex b of Inl x \<Rightarrow> Inl x | Inr cs \<Rightarrow> Inr (concat (replicate n bs) @ cs))"
proof (induction n)
  case 0
  show ?case by (simp split: sum.split)
next
  case (Suc n)
  have "fromhex (concat (replicate (Suc n) a) @ b) =
      (case fromhex (concat (replicate n a) @ b) of Inl x \<Rightarrow> Inl x | Inr cs \<Rightarrow> Inr (bs @ cs))"
    using assms [of "concat (replicate n a) @ b"] by simp
  also have "\<dots> = (case fromhex b of Inl x \<Rightarrow> Inl x
      | Inr cs \<Rightarrow> Inr (concat (replicate (Suc n) bs) @ cs))"
    unfolding Suc by (cases "fromhex b") simp_all
  finally show ?case .
qed

lemma replicate_6: "replicate 6 x = [x, x, x, x, x, x]"
  by (simp add: eval_nat_numeral)

lemma fromhex_FF:
  "fromhex (concat (replicate 6 ''FF'') @ b) =
     (case fromhex b of Inl x \<Rightarrow> Inl x | Inr cs \<Rightarrow> Inr (replicate 6 0xFF @ cs))"
  by (simp add: replicate_6 is_space_def digit_value_def Let_def split: sum.split)

lemma magic_packet_valid:
  assumes "valid_mac m"
  shows "\<exists>addr. fromhex m = Inr addr \<and> length addr = 6 \<and>
     magic_packet m = Inr (replicate 6 0xFF @ concat (replicate 16 addr))"
proof -
  from assms have "list_all (\<lambda>c. digit_value c \<noteq> None) m" "even (length m)" "length m = 12"
    by (simp_all add: valid_mac_def)
  from fromhex_Inr [OF this(1,2)] this(3) obtain addr where a: "fromhex m = Inr addr" "length addr = 6"
    "\<And>b. fromhex (m @ b) = (case fromhex b of Inl x \<Rightarrow> Inl x | Inr cs \<Rightarrow> Inr (addr @ cs))" by auto
  have "magic_packet m = Inr (replicate 6 0xFF @ concat (replicate 16 addr))"
    unfolding magic_packet_def fromhex_FF
    using fromhex_replicate [of m addr 16 "[]", OF a(3)] by simp
  with a show ?thesis by blast
qed

lemma length_concat_replicate: "length (concat (replicate n xs)) = n * length xs"
  by (induction n) simp_all

lemma strip_separators_valid: "valid_mac m \<Longrightarrow> strip_separators m = m"
proof -
  assume "valid_mac m"
  then have "\<forall>c\<in>set m. digit_value c \<noteq> None" by (simp add: valid_mac_def list_all_iff)
  moreover have "digit_value CHR '':'' = None" "digit_value CHR ''-'' = None"
    by (simp_all add: digit_value_def)
  ultimately have "\<forall>c\<in>set m. c \<noteq> CHR '':'' \<and> c \<noteq> CHR ''-''" by auto
  then show ?thesis by (simp add: strip_separators_def)
qed

lemma wake_on_lan_returns:
  assumes "wake_on_lan e mac tr = (Inr u, tr')"
  shows "\<exists>data. magic_packet (strip_separators mac) = Inr data \<and> length (strip_separators mac) = 12 \<and>
    tr' = tr @ [SocketOpened, BroadcastEnabled, SentTo data ''<broadcast>'' 9, SocketClosed,
                 Printed (''Magic packet sent to '' @ strip_separators mac)]"
  using assms by (auto simp: wake_on_lan_def Let_def split: if_splits sum.splits option.splits)

lemma wake_on_lan_raises:
  assumes "wake_on_lan e mac tr = (Inl x, tr')"
  shows "tr' = tr \<or> tr' = tr @ [SocketOpened, SocketClosed] \<or>
         tr' = tr @ [SocketOpened, BroadcastEnabled, SocketClosed]"
  using assms by (auto simp: wake_on_lan_def Let_def split: if_splits sum.splits option.splits)

lemma sent_payloads_append: "sent_payloads (xs @ ys) = sent_payloads xs @ sent_payloads ys"
  by (induction xs rule: sent_payloads.induct) simp_all

lemma fromhex_bad_char:
  "c \<in> set s \<Longrightarrow> digit_value c = None \<Longrightarrow> \<not> is_space c \<Longrightarrow> fromhex s = Inl ValueError"
proof (induction s rule: fromhex.induct)
  case 1
  then show ?case by simp
next
  case (2 a)
  then show ?case by simp
next
  case (3 a d cs)
  show ?case
  proof (cases "is_space a")
    case True
    with "3.prems" have "c \<in> set (d # cs)" by auto
    with "3.IH"(1) [OF True] "3.prems" True show ?thesis by simp
  next
    case False
    show ?thesis
    proof (cases "digit_value a")
      case None
      with False show ?thesis by simp
    next
      case (Some hi)
      note hi = this
      show ?thesis
      proof (cases "digit_value d")
        case None
        with False hi show ?thesis by simp
      next
        case (Some lo)
        with hi "3.prems" have "c \<in> set cs" by auto
        with "3.IH"(2) [OF False hi Some] "3.prems" have "fromhex cs = Inl ValueError" by simp
        with False hi Some show ?thesis by simp
      qed
    qed
  qed
qed

lemma magic_packet_bad_char:
  assumes "c \<in> set m" and "digit_value c = None" and "\<not> is_space c"
  shows "magic_packet m = Inl ValueError"
proof -
  have "c \<in> set (concat (replicate 6 ''FF'') @ concat (replicate 16 m))"
    using assms(1) by simp
  from fromhex_bad_char [OF this assms(2,3)] show ?thesis
    by (simp only: magic_packet_def)
qed

lemma wake_on_lan_rejects:
  assumes "length (strip_separators mac) \<noteq> 12 \<or>
           (\<exists>c \<in> set (strip_separators mac). digit_value c = None \<and> \<not> is_space c)"
  shows "wake_on_lan e mac tr = (Inl ValueError, tr)"
proof (cases "length (strip_separators mac) \<noteq> 12")
  case True
  then show ?thesis by (simp add: wake_on_lan_def)
next
  case False
  with assms obtain c where "c \<in> set (strip_separators mac)" "digit_value c = None" "\<not> is_space c"
    by blast
  then have "magic_packet (strip_separators mac) = Inl ValueError"
    by (rule magic_packet_bad_char)
  with False show ?thesis by (simp add: wake_on_lan_def)
qed

lemma magic_packet_map_upper: "magic_packet (map upper_char m) = magic_packet m"
proof -
  have "concat (replicate 16 (map upper_char m)) = map upper_char (concat (replicate 16 m))"
    by (simp add: map_concat)
  then show ?thesis
    unfolding magic_packet_def fromhex_FF by (simp only: fromhex_map_upper)
qed

lemma magic_packet_map_lower: "magic_packet (map lower_char m) = magic_packet m"
proof -
  have "concat (replicate 16 (map lower_char m)) = map lower_char (concat (replicate 16 m))"
    by (simp add: map_concat)
  then show ?thesis
    unfolding magic_packet_def fromhex_FF by (simp only: fromhex_map_lower)
qed

lemma wake_on_lan_payloads:
  "sent_payloads (snd (wake_on_lan e mac tr)) =
     sent_payloads tr @
       (case fst (wake_on_lan e mac tr) of
          Inl x \<Rightarrow> []
        | Inr u \<Rightarrow> (case magic_packet (strip_separators mac) of Inl x \<Rightarrow> [] | Inr data \<Rightarrow> [data]))"
  by (auto simp: wake_on_lan_def Let_def sent_payloads_append split: sum.splits option.splits)

lemma wake_on_lan_fst_cong:
  assumes "length (strip_separators mac') = length (strip_separators mac)"
      and "magic_packet (strip_separators mac') = magic_packet (strip_separators mac)"
  shows "fst (wake_on_lan e mac' tr) = fst (wake_on_lan e mac tr)"
  using assms by (auto simp: wake_on_lan_def Let_def split: sum.splits option.splits)

section \<open>Wake signaler: normalization and payload\<close>

text \<open>
  C5. Stripping the separators removes exactly the colons and the hyphens of an address and
  keeps every other character, in order; so \<^verbatim>\<open>AA:BB:CC:DD:EE:FF\<close>,
  \<^verbatim>\<open>AA-BB-CC-DD-EE-FF\<close> and \<^verbatim>\<open>AABBCCDDEEFF\<close> come out as the same 12 characters.
  \<^verbatim>\<open>wake_on_lan\<close> raises \<^verbatim>\<open>ValueError\<close>, with nothing done, on every address that
  has not exactly 12 characters other than colons and hyphens.
\<close>

theorem mac_normalization:
  "strip_separators mac = filter (\<lambda>c. c \<noteq> CHR '':'' \<and> c \<noteq> CHR ''-'') mac \<and>
   strip_separators ''AA:BB:CC:DD:EE:FF'' = ''AABBCCDDEEFF'' \<and>
   strip_separators ''AA-BB-CC-DD-EE-FF'' = ''AABBCCDDEEFF'' \<and>
   strip_separators ''AABBCCDDEEFF'' = ''AABBCCDDEEFF'' \<and>
   length ''AABBCCDDEEFF'' = 12 \<and>
   (length (strip_separators mac) \<noteq> 12 \<longrightarrow> wake_on_lan e mac tr = (Inl ValueError, tr)) \<and>
   (length (filter (\<lambda>c. c \<noteq> CHR '':'' \<and> c \<noteq> CHR ''-'') mac) \<noteq> 12 \<longrightarrow>
      wake_on_lan e mac tr = (Inl ValueError, tr))"
  by (simp add: strip_separators_def wake_on_lan_def)

theorem mac_normalization_witness:
  "length (strip_separators ''AA:BB:CC'') \<noteq> 12 \<and>
   length (filter (\<lambda>c. c \<noteq> CHR '':'' \<and> c \<noteq> CHR ''-'') ''AA:BB:CC'') \<noteq> 12 \<and>
   strip_separators ''AA:BB:CC'' = ''AABBCC'' \<and>
   wake_on_lan env_up ''AA:BB:CC'' [] = (Inl ValueError, [])"
  using mac_normalization [of "''AA:BB:CC''" env_up "[]"]
  by simp

lemma strip_separators_example:
  "strip_separators ''11:22:33:44:55:66'' = ''112233445566'' \<and>
   strip_separators ''11-22-33-44-55-66'' = ''112233445566''"
  by (simp add: strip_separators_def)

text \<open>
  C6. For an address of 12 hexadecimal digits the payload is 102 bytes: six bytes
  \<open>0xFF\<close>, then sixteen times the six bytes the digits spell; and it is the one payload a
  call of \<^verbatim>\<open>wake_on_lan\<close> that returns has sent.
\<close>

theorem magic_packet_layout:
  assumes "valid_mac m"
  shows "case fromhex m of
           Inl x \<Rightarrow> False
         | Inr addr \<Rightarrow>
             length addr = 6 \<and>
             magic_packet m = Inr (replicate 6 0xFF @ concat (replicate 16 addr)) \<and>
             length (replicate 6 (0xFF :: byte) @ concat (replicate 16 addr)) = 102 \<and>
             (fst (wake_on_lan e m tr) = Inr () \<longrightarrow>
                sent_payloads (snd (wake_on_lan e m tr)) =
                  sent_payloads tr @ [replicate 6 0xFF @ concat (replicate 16 addr)])"
proof -
  from magic_packet_valid [OF assms] obtain addr where a: "fromhex m = Inr addr" "length addr = 6"
    "magic_packet m = Inr (replicate 6 0xFF @ concat (replicate 16 addr))" by blast
  have "length (replicate 6 (0xFF :: byte) @ concat (replicate 16 addr)) = 102"
    using a(2) by (simp add: length_concat_replicate)
  moreover have "fst (wake_on_lan e m tr) = Inr () \<Longrightarrow>
      sent_payloads (snd (wake_on_lan e m tr)) =
        sent_payloads tr @ [replicate 6 0xFF @ concat (replicate 16 addr)]"
    using wake_on_lan_payloads [of e m tr] a(3) strip_separators_valid [OF assms] by simp
  ultimately show ?thesis using a by simp
qed

theorem magic_packet_layout_witness:
  "valid_mac ''D8CB8A4015E5'' \<and>
   fst (wake_on_lan env_up ''D8CB8A4015E5'' []) = Inr () \<and>
   magic_packet ''D8CB8A4015E5'' =
     Inr (replicate 6 0xFF @ concat (replicate 16 [0xD8, 0xCB, 0x8A, 0x40, 0x15, 0xE5])) \<and>
   sent_payloads (snd (wake_on_lan env_up ''D8CB8A4015E5'' [])) =
     [replicate 6 0xFF @ concat (replicate 16 [0xD8, 0xCB, 0x8A, 0x40, 0x15, 0xE5])]"
proof -
  have v: "valid_mac ''D8CB8A4015E5''"
    by (simp add: valid_mac_def digit_value_def)
  have f: "fromhex ''D8CB8A4015E5'' = Inr [0xD8, 0xCB, 0x8A, 0x40, 0x15, 0xE5]"
    by (simp add: digit_value_def is_space_def)
  have r: "fst (wake_on_lan env_up ''D8CB8A4015E5'' []) = Inr ()"
    by code_simp
  note t = magic_packet_layout [OF v, of env_up "[]", unfolded f sum.case]
  show ?thesis
    using t v r by simp
qed

text \<open>
  C10. The payload does not depend on the letter case of the digits: for an address whose
  stripped form is 12 hexadecimal digits, the upper-case and the lower-case spelling give
  the same 102 bytes, and \<^verbatim>\<open>wake_on_lan\<close> sends the same payloads for both.
\<close>

theorem magic_packet_case_invariant:
  assumes "valid_mac (strip_separators mac)"
  shows "magic_packet (strip_separators (map upper_char mac)) =
           magic_packet (strip_separators (map lower_char mac)) \<and>
         map_sum id length (magic_packet (strip_separators (map upper_char mac))) = Inr 102 \<and>
         sent_payloads (snd (wake_on_lan e (map upper_char mac) tr)) =
           sent_payloads (snd (wake_on_lan e (map lower_char mac) tr))"
proof -
  let ?m = "strip_separators mac"
  have u: "magic_packet (strip_separators (map upper_char mac)) = magic_packet ?m"
    by (simp only: strip_map_upper magic_packet_map_upper)
  have l: "magic_packet (strip_separators (map lower_char mac)) = magic_packet ?m"
    by (simp only: strip_map_lower magic_packet_map_lower)
  from magic_packet_valid [OF assms] obtain addr where a: "length addr = 6"
    "magic_packet ?m = Inr (replicate 6 0xFF @ concat (replicate 16 addr))" by blast
  have n: "map_sum id length (magic_packet ?m) = Inr 102"
    using a by (simp add: length_concat_replicate)
  have len: "length (strip_separators (map upper_char mac)) =
      length (strip_separators (map lower_char mac))"
    by (simp add: strip_map_upper strip_map_lower)
  have eq: "magic_packet (strip_separators (map upper_char mac)) =
      magic_packet (strip_separators (map lower_char mac))"
    by (simp only: u l)
  have "fst (wake_on_lan e (map upper_char mac) tr) = fst (wake_on_lan e (map lower_char mac) tr)"
    by (rule wake_on_lan_fst_cong [OF len eq])
  then have "sent_payloads (snd (wake_on_lan e (map upper_char mac) tr)) =
      sent_payloads (snd (wake_on_lan e (map lower_char mac) tr))"
    by (simp only: wake_on_lan_payloads u l)
  with u l n show ?thesis by simp
qed

theorem magic_packet_case_invariant_witness:
  "valid_mac (strip_separators ''d8:cb:8a:40:15:e5'') \<and>
   magic_packet (strip_separators ''D8:CB:8A:40:15:E5'') =
     magic_packet (strip_separators ''d8:cb:8a:40:15:e5'')"
proof -
  have v: "valid_mac (strip_separators ''d8:cb:8a:40:15:e5'')"
    by (simp add: valid_mac_def strip_separators_def digit_value_def)
  have u: "map upper_char ''d8:cb:8a:40:15:e5'' = ''D8:CB:8A:40:15:E5''"
    by code_simp
  have l: "map lower_char ''d8:cb:8a:40:15:e5'' = ''d8:cb:8a:40:15:e5''"
    by code_simp
  show ?thesis
    using magic_packet_case_invariant [OF v, of env_up "[]"] v by (simp only: u l)
qed

text \<open>
  C9, at the address \<^verbatim>\<open>"AA BB CC DD "\<close>: its 12 characters are not 12 hexadecimal digits,
  yet \<^verbatim>\<open>wake_on_lan\<close> returns, having opened a socket and sent a datagram of 70 bytes.
\<close>

theorem wake_on_lan_accepts_spaces:
  "length (strip_separators ''AA BB CC DD '') = 12 \<and>
   digit_value CHR '' '' = None \<and>
   \<not> valid_mac (strip_separators ''AA BB CC DD '') \<and>
   wake_on_lan env_up ''AA BB CC DD '' [] =
     (Inr (),
      [SocketOpened, BroadcastEnabled,
       SentTo (replicate 6 0xFF @ concat (replicate 16 [0xAA, 0xBB, 0xCC, 0xDD])) ''<broadcast>'' 9,
       SocketClosed, Printed ''Magic packet sent to AA BB CC DD '']) \<and>
   length (replicate 6 (0xFF :: byte) @ concat (replicate 16 [0xAA, 0xBB, 0xCC, 0xDD :: byte])) = 70"
proof -
  have p: "magic_packet ''AA BB CC DD '' =
      Inr (replicate 6 0xFF @ concat (replicate 16 [0xAA, 0xBB, 0xCC, 0xDD]))"
    by code_simp
  have w: "wake_on_lan env_up ''AA BB CC DD '' [] =
     (Inr (),
      [SocketOpened, BroadcastEnabled,
       SentTo (replicate 6 0xFF @ concat (replicate 16 [0xAA, 0xBB, 0xCC, 0xDD])) ''<broadcast>'' 9,
       SocketClosed, Printed ''Magic packet sent to AA BB CC DD ''])"
    by (simp add: wake_on_lan_def strip_separators_def p env_up_def)
  have "\<not> valid_mac (strip_separators ''AA BB CC DD '')"
    by (simp add: valid_mac_def strip_separators_def digit_value_def)
  moreover have "digit_value CHR '' '' = None"
    by (simp add: digit_value_def)
  moreover have "length (strip_separators ''AA BB CC DD '') = 12"
    by (simp add: strip_separators_def)
  ultimately show ?thesis using w by (simp add: length_concat_replicate)
qed

section \<open>Reachability prober: classification and results\<close>

lemma is_online_address:
  "ip_address e t \<Longrightarrow>
   is_online e t tr =
     (case subprocess_call e tr [''ping'', ''-c'', ''1'', ''-W'', ''1'', t] of
        Inl x \<Rightarrow> Inl x
      | Inr code \<Rightarrow> Inr (code = 0),
      tr @ [Ping [''ping'', ''-c'', ''1'', ''-W'', ''1'', t]
              (subprocess_call e tr [''ping'', ''-c'', ''1'', ''-W'', ''1'', t])])"
  by (simp add: is_online_def is_ip_address_def Let_def split: sum.split)

lemma is_online_named:
  "\<not> ip_address e t \<Longrightarrow> urlparse e t = Inr scheme \<Longrightarrow>
   is_online e t tr =
     (case requests_get e tr (if scheme = [] then ''http://'' @ t else t) 1 of
        Inr status_code \<Rightarrow> Inr (status_code = 200)
      | Inl (RequestException k) \<Rightarrow> Inr False
      | Inl x \<Rightarrow> Inl x,
      tr @ [HttpGet (if scheme = [] then ''http://'' @ t else t) 1
              (requests_get e tr (if scheme = [] then ''http://'' @ t else t) 1)])"
  by (simp add: is_online_def is_ip_address_def Let_def split: sum.split exn.split)

lemma is_online_unparsed:
  "\<not> ip_address e t \<Longrightarrow> urlparse e t = Inl x \<Longrightarrow> is_online e t tr = (Inl x, tr)"
  by (simp add: is_online_def is_ip_address_def)

text \<open>
  C4. Every target takes exactly one of the two branches of \<^verbatim>\<open>is_online\<close>, decided by
  whether \<^verbatim>\<open>ipaddress.ip_address\<close> parses it: a target that parses is pinged, once, and
  nothing else; any other target is never pinged, and is fetched with one GET (unless
  \<^verbatim>\<open>urlparse\<close> raises first).
\<close>

theorem classification_total:
  "is_ip_address e t = ip_address e t \<and>
   (ip_address e t \<longrightarrow>
      snd (is_online e t tr) =
        tr @ [Ping [''ping'', ''-c'', ''1'', ''-W'', ''1'', t]
                (subprocess_call e tr [''ping'', ''-c'', ''1'', ''-W'', ''1'', t])]) \<and>
   (\<not> ip_address e t \<longrightarrow>
      snd (is_online e t tr) =
        (case urlparse e t of
           Inl x \<Rightarrow> tr
         | Inr scheme \<Rightarrow>
             tr @ [HttpGet (if scheme = [] then ''http://'' @ t else t) 1
                     (requests_get e tr (if scheme = [] then ''http://'' @ t else t) 1)]))"
proof (intro conjI impI)
  show "is_ip_address e t = ip_address e t"
    by (simp add: is_ip_address_def)
next
  assume "ip_address e t"
  then show "snd (is_online e t tr) =
        tr @ [Ping [''ping'', ''-c'', ''1'', ''-W'', ''1'', t]
                (subprocess_call e tr [''ping'', ''-c'', ''1'', ''-W'', ''1'', t])]"
    by (simp add: is_online_address)
next
  assume n: "\<not> ip_address e t"
  show "snd (is_online e t tr) =
        (case urlparse e t of
           Inl x \<Rightarrow> tr
         | Inr scheme \<Rightarrow>
             tr @ [HttpGet (if scheme = [] then ''http://'' @ t else t) 1
                     (requests_get e tr (if scheme = [] then ''http://'' @ t else t) 1)])"
  proof (cases "urlparse e t")
    case (Inl x)
    with n show ?thesis by (simp add: is_online_unparsed)
  next
    case (Inr scheme)
    with n show ?thesis by (simp add: is_online_named)
  qed
qed

theorem classification_total_witness:
  "ip_address env_up ''203.0.113.5'' \<and>
   snd (is_online env_up ''203.0.113.5'' []) =
     [Ping [''ping'', ''-c'', ''1'', ''-W'', ''1'', ''203.0.113.5''] (Inr 0)] \<and>
   \<not> ip_address env_up ''example.internal'' \<and>
   snd (is_online env_up ''example.internal'' []) =
     [HttpGet ''http://example.internal'' 1 (Inr 200)]"
  using classification_total [of env_up "''203.0.113.5''" "[]"]
    classification_total [of env_up "''example.internal''" "[]"]
  by (simp add: env_up_def)

text \<open>
  The HTTP branch when \<^verbatim>\<open>urlparse\<close> returns: the GET goes to the target itself if it
  has a scheme and to \<^verbatim>\<open>http://\<close> plus the target if it has none; the answer is
  \<^verbatim>\<open>True\<close> exactly when the status code is 200, and \<^verbatim>\<open>False\<close> on every
  \<^verbatim>\<open>RequestException\<close> and on every other status code.
\<close>

theorem named_probe:
  assumes "\<not> ip_address e t" and "urlparse e t = Inr scheme"
  shows "snd (is_online e t tr) =
           tr @ [HttpGet (if scheme = [] then ''http://'' @ t else t) 1
                   (requests_get e tr (if scheme = [] then ''http://'' @ t else t) 1)] \<and>
         (fst (is_online e t tr) = Inr True \<longleftrightarrow>
            requests_get e tr (if scheme = [] then ''http://'' @ t else t) 1 = Inr 200) \<and>
         (\<forall>k. requests_get e tr (if scheme = [] then ''http://'' @ t else t) 1 =
                 Inl (RequestException k) \<longrightarrow> fst (is_online e t tr) = Inr False) \<and>
         (\<forall>c. requests_get e tr (if scheme = [] then ''http://'' @ t else t) 1 = Inr c \<and> c \<noteq> 200 \<longrightarrow>
                 fst (is_online e t tr) = Inr False)"
  unfolding is_online_named [OF assms]
  by (auto split: sum.splits exn.splits)

theorem named_probe_witness:
  "\<not> ip_address env_404 ''example.internal'' \<and>
   urlparse env_404 ''example.internal'' = Inr [] \<and>
   requests_get env_404 [] ''http://example.internal'' 1 = Inr 404 \<and>
   snd (is_online env_404 ''example.internal'' []) =
     [HttpGet ''http://example.internal'' 1 (Inr 404)] \<and>
   fst (is_online env_404 ''example.internal'' []) = Inr False"
proof -
  have n: "\<not> ip_address env_404 ''example.internal''"
    by (simp add: env_404_def env_up_def)
  have u: "urlparse env_404 ''example.internal'' = Inr []"
    by (simp add: env_404_def env_up_def)
  have g: "requests_get env_404 [] ''http://example.internal'' 1 = Inr 404"
    by (simp add: env_404_def env_up_def)
  show ?thesis
    using named_probe [OF n u, of "[]"] n u g by simp
qed

lemma named_probe_timeout:
  "is_online env_timeout ''example.internal'' [] =
     (Inr False, [HttpGet ''http://example.internal'' 1 (Inl (RequestException Timeout))])"
  by (simp add: is_online_def is_ip_address_def env_timeout_def env_up_def)

lemma status_404:
  "api_web_ui_status env_404 ''example.internal'' [] =
     (Inr ([(''online'', JBool False)], 200), [HttpGet ''http://example.internal'' 1 (Inr 404)])"
  by (simp add: api_web_ui_status_def is_online_def is_ip_address_def env_404_def env_up_def)

text \<open>
  C7, at the target \<^verbatim>\<open>a..b\<close>: it is no address and has no scheme, so the GET goes to
  \<^verbatim>\<open>http://a..b\<close>; the GET fails with an exception that is no
  \<^verbatim>\<open>RequestException\<close>, and \<^verbatim>\<open>is_online\<close> does not answer \<^verbatim>\<open>False\<close>: it
  raises, and so does the status handler.
\<close>

theorem named_probe_raises:
  "\<not> ip_address env_bad_label ''a..b'' \<and>
   urlparse env_bad_label ''a..b'' = Inr [] \<and>
   requests_get env_bad_label [] ''http://a..b'' 1 \<noteq> Inr 200 \<and>
   is_online env_bad_label ''a..b'' [] =
     (Inl ValueError, [HttpGet ''http://a..b'' 1 (Inl ValueError)]) \<and>
   fst (is_online env_bad_label ''a..b'' []) \<noteq> Inr False \<and>
   api_web_ui_status env_bad_label ''a..b'' [] =
     (Inl ValueError, [HttpGet ''http://a..b'' 1 (Inl ValueError)])"
  by (simp add: api_web_ui_status_def is_online_def is_ip_address_def env_bad_label_def env_up_def)

text \<open>
  C1, at the target \<^verbatim>\<open>203.0.113.5\<close> when the \<^verbatim>\<open>ping\<close> command cannot be started:
  \<^verbatim>\<open>subprocess.call\<close> raises \<^verbatim>\<open>OSError\<close>, \<^verbatim>\<open>is_online\<close> lets it through, and so
  does the status handler, which returns no response.
\<close>

theorem status_raises_without_ping:
  "is_online env_no_ping ''203.0.113.5'' [] =
     (Inl OSError, [Ping [''ping'', ''-c'', ''1'', ''-W'', ''1'', ''203.0.113.5''] (Inl OSError)]) \<and>
   api_web_ui_status env_no_ping ''203.0.113.5'' [] =
     (Inl OSError, [Ping [''ping'', ''-c'', ''1'', ''-W'', ''1'', ''203.0.113.5''] (Inl OSError)])"
  by (simp add: api_web_ui_status_def is_online_def is_ip_address_def env_no_ping_def env_up_def)

lemma is_online_returns:
  assumes "\<And>command. subprocess_call e tr command \<noteq> Inl x"
      and "urlparse e t \<noteq> Inl x"
      and "\<And>url. requests_get e tr url 1 = Inl x \<Longrightarrow> \<exists>k. x = RequestException k"
  shows "fst (is_online e t tr) \<noteq> Inl x"
  using assms
  by (auto simp: is_online_def is_ip_address_def Let_def split: sum.splits exn.splits)

section \<open>Wake-and-wait orchestration\<close>

lemma is_online_Inr:
  assumes "is_online e t tr = (Inr b, tr')"
  shows "\<exists>ev. tr' = tr @ [ev] \<and> is_probe ev \<and> probe_matches t ev \<and> reported_reachable ev = b"
  using assms
  by (auto simp: is_online_def is_ip_address_def Let_def split: if_splits sum.splits exn.splits)

lemma is_online_Inl:
  assumes "is_online e t tr = (Inl x, tr')"
  shows "tr' = tr \<or>
    (\<exists>ev. tr' = tr @ [ev] \<and> is_probe ev \<and> probe_matches t ev \<and> \<not> reported_reachable ev)"
  using assms
  by (auto simp: is_online_def is_ip_address_def Let_def split: if_splits sum.splits exn.splits)

lemma follows_plan_skip:
  "list_all (\<lambda>ev. \<not> is_probe ev) xs \<Longrightarrow> follows_plan ts (xs @ ys) = follows_plan ts ys"
  by (induction xs) simp_all

lemma sent_payloads_probe: "is_probe ev \<Longrightarrow> sent_payloads (ev # xs) = sent_payloads xs"
  by (cases ev) simp_all

lemma sent_payloads_Nil_iff: "sent_payloads xs = [] \<longleftrightarrow> list_all (\<lambda>ev. \<not> is_send ev) xs"
  by (induction xs rule: sent_payloads.induct) simp_all

lemma sent_payloads_takeWhile: "sent_payloads xs = [] \<Longrightarrow> sent_payloads (takeWhile P xs) = []"
  unfolding sent_payloads_Nil_iff list_all_iff by (auto dest: set_takeWhileD)

text \<open>What one run of a polling loop adds to the history.\<close>

lemma wait_online_trace:
  "wait_online e t msg fuel tr = (out, tr') \<Longrightarrow>
   \<exists>added. tr' = tr @ added \<and> sent_payloads added = [] \<and>
     (\<forall>ts more. follows_plan (t # ts) (added @ more) =
        follows_plan (if out = Returned () then ts else t # ts) more) \<and>
     (out = Returned () \<longrightarrow>
        added \<noteq> [] \<and> probe_matches t (last added) \<and> reported_reachable (last added))"
proof (induction fuel arbitrary: tr)
  case 0
  then have "out = OutOfFuel" "tr' = tr" by simp_all
  then show ?case by simp
next
  case (Suc fuel)
  obtain r tr1 where o: "is_online e t tr = (r, tr1)" by (cases "is_online e t tr")
  show ?case
  proof (cases r)
    case (Inl x)
    with o Suc.prems have out: "out = Raised x" "tr' = tr1" by simp_all
    from is_online_Inl [OF o [unfolded Inl]] show ?thesis
    proof
      assume "tr1 = tr"
      with out show ?thesis by simp
    next
      assume "\<exists>ev. tr1 = tr @ [ev] \<and> is_probe ev \<and> probe_matches t ev \<and> \<not> reported_reachable ev"
      then obtain ev where ev: "tr1 = tr @ [ev]" "is_probe ev" "probe_matches t ev"
        "\<not> reported_reachable ev" by blast
      show ?thesis
        by (rule exI [of _ "[ev]"]) (simp add: out ev sent_payloads_probe)
    qed
  next
    case (Inr b)
    from is_online_Inr [OF o [unfolded Inr]] obtain ev where ev: "tr1 = tr @ [ev]" "is_probe ev"
      "probe_matches t ev" "reported_reachable ev = b" by blast
    show ?thesis
    proof (cases b)
      case True
      with o Inr Suc.prems have out: "out = Returned ()" "tr' = tr1" by simp_all
      show ?thesis
        by (rule exI [of _ "[ev]"]) (use True in \<open>simp add: out ev sent_payloads_probe\<close>)
    next
      case False
      with o Inr Suc.prems
      have "wait_online e t msg fuel (tr1 @ [Slept 1, Printed msg]) = (out, tr')" by simp
      from Suc.IH [OF this] obtain added where a: "tr' = (tr1 @ [Slept 1, Printed msg]) @ added"
        "sent_payloads added = []"
        "\<And>ts more. follows_plan (t # ts) (added @ more) =
            follows_plan (if out = Returned () then ts else t # ts) more"
        "out = Returned () \<Longrightarrow>
            added \<noteq> [] \<and> probe_matches t (last added) \<and> reported_reachable (last added)"
        by blast
      show ?thesis
      proof (rule exI [of _ "[ev, Slept 1, Printed msg] @ added"], intro conjI allI impI)
        show "tr' = tr @ [ev, Slept 1, Printed msg] @ added"
          using a(1) ev(1) by simp
        show "sent_payloads ([ev, Slept 1, Printed msg] @ added) = []"
          using a(2) by (simp add: sent_payloads_probe [OF ev(2)])
      next
        fix ts more
        show "follows_plan (t # ts) (([ev, Slept 1, Printed msg] @ added) @ more) =
            follows_plan (if out = Returned () then ts else t # ts) more"
          using a(3) [of ts more] ev False by simp
      next
        assume "out = Returned ()"
        from a(4) [OF this] show "[ev, Slept 1, Printed msg] @ added \<noteq> []"
          "probe_matches t (last ([ev, Slept 1, Printed msg] @ added))"
          "reported_reachable (last ([ev, Slept 1, Printed msg] @ added))"
          by simp_all
      qed
    qed
  qed
qed

text \<open>More fuel does not change a run that ended.\<close>

lemma wait_online_mono:
  "wait_online e t msg fuel tr = (out, tr') \<Longrightarrow> out \<noteq> OutOfFuel \<Longrightarrow>
   wait_online e t msg (fuel + k) tr = (out, tr')"
proof (induction fuel arbitrary: tr)
  case 0
  then show ?case by simp
next
  case (Suc fuel)
  then show ?case
    by (auto split: prod.splits sum.splits if_splits)
qed

lemma wake_events_no_probe:
  assumes "wake_on_lan e mac tr = (r, tr')"
  shows "\<exists>w. tr' = tr @ w \<and> list_all (\<lambda>ev. \<not> is_probe ev) w \<and>
     length (sent_payloads w) = (case r of Inl x \<Rightarrow> 0 | Inr u \<Rightarrow> 1)"
proof (cases r)
  case (Inl x)
  from wake_on_lan_raises [OF assms [unfolded Inl]] show ?thesis
    by (auto simp: Inl)
next
  case (Inr u)
  from wake_on_lan_returns [OF assms [unfolded Inr]] show ?thesis
    by (auto simp: Inr)
qed

text \<open>
  C8. When \<^verbatim>\<open>wake_on_lan\<close> raises, with \<^verbatim>\<open>ValueError\<close> for an invalid address or
  with anything else, \<^verbatim>\<open>api_log_redirect\<close> ends at once with that exception, and the
  history has no probe that was not there before.
\<close>

theorem wake_failure_propagates:
  assumes "fst (wake_on_lan e mac tr) = Inl x"
  shows "api_log_redirect_with mac e fuel tr = (Raised x, snd (wake_on_lan e mac tr)) \<and>
         filter is_probe (snd (api_log_redirect_with mac e fuel tr)) = filter is_probe tr"
proof -
  obtain tr' where w: "wake_on_lan e mac tr = (Inl x, tr')"
    using assms by (cases "wake_on_lan e mac tr") simp
  from wake_events_no_probe [OF w] obtain ws where ws: "tr' = tr @ ws"
    "list_all (\<lambda>ev. \<not> is_probe ev) ws" by blast
  have "filter is_probe ws = []"
    using ws(2) by (simp add: list_all_iff)
  with w ws(1) show ?thesis
    by (simp add: api_log_redirect_with_def)
qed

theorem wake_failure_propagates_witness:
  "fst (wake_on_lan env_up ''AA:BB:CC'' []) = Inl ValueError \<and>
   api_log_redirect_with ''AA:BB:CC'' env_up 5 [] = (Raised ValueError, [])"
proof -
  have w: "wake_on_lan env_up ''AA:BB:CC'' [] = (Inl ValueError, [])"
    by (simp add: wake_on_lan_def strip_separators_def)
  then have f: "fst (wake_on_lan env_up ''AA:BB:CC'' []) = Inl ValueError" by simp
  show ?thesis
    using wake_failure_propagates [OF f, of 5] f by (simp add: w)
qed

text \<open>
  C3. In every run of \<^verbatim>\<open>api_log_redirect\<close>, whatever the address, the environment and
  the number of iterations it is given: the probes follow the plan (first the host, then
  the web UI, the second never before a probe of the first has reported it reachable), at
  most one wake signal is sent, exactly one has been sent before the first probe, and
  exactly one is sent in all when \<^verbatim>\<open>wake_on_lan\<close> returns.
\<close>

theorem orchestration_order:
  "follows_plan [''192.168.23.22'', ''openwebui.illerit.de'']
     (snd (api_log_redirect_with mac e fuel [])) \<and>
   length (sent_payloads (snd (api_log_redirect_with mac e fuel []))) \<le> 1 \<and>
   (list_ex is_probe (snd (api_log_redirect_with mac e fuel [])) \<longrightarrow>
      length (sent_payloads
        (takeWhile (\<lambda>ev. \<not> is_probe ev) (snd (api_log_redirect_with mac e fuel [])))) = 1) \<and>
   (fst (wake_on_lan e mac []) = Inr () \<longrightarrow>
      length (sent_payloads (snd (api_log_redirect_with mac e fuel []))) = 1)"
proof -
  let ?T1 = "''192.168.23.22''" and ?T2 = "''openwebui.illerit.de''"
  let ?m1 = "''Waiting for AI server to come online...''"
  let ?m2 = "''Waiting for AI Web UI to come online...''"
  obtain r h0 where w: "wake_on_lan e mac [] = (r, h0)" by (cases "wake_on_lan e mac []")
  from wake_events_no_probe [OF w] have h0: "list_all (\<lambda>ev. \<not> is_probe ev) h0"
    "length (sent_payloads h0) = (case r of Inl x \<Rightarrow> 0 | Inr u \<Rightarrow> 1)" by auto
  have tw: "\<And>xs. takeWhile (\<lambda>ev. \<not> is_probe ev) (h0 @ xs) = h0 @ takeWhile (\<lambda>ev. \<not> is_probe ev) xs"
    using h0(1) by (simp add: list_all_iff)
  have np: "\<not> list_ex is_probe h0"
    using h0(1) by (simp add: list_all_iff list_ex_iff)
  show ?thesis
  proof (cases r)
    case (Inl x)
    with w have "snd (api_log_redirect_with mac e fuel []) = h0"
      by (simp add: api_log_redirect_with_def)
    with h0 np Inl w follows_plan_skip [OF h0(1), of _ "[]"] show ?thesis by simp
  next
    case (Inr u)
    with h0 have s0: "length (sent_payloads h0) = 1" by simp
    obtain o1 h1 where l1: "wait_online e ?T1 ?m1 fuel h0 = (o1, h1)"
      by (cases "wait_online e ?T1 ?m1 fuel h0")
    from wait_online_trace [OF l1] obtain a1 where a1: "h1 = h0 @ a1" "sent_payloads a1 = []"
      "\<And>ts more. follows_plan (?T1 # ts) (a1 @ more) =
          follows_plan (if o1 = Returned () then ts else ?T1 # ts) more"
      by blast
    obtain o2 h2 where l2: "wait_online e ?T2 ?m2 fuel h1 = (o2, h2)"
      by (cases "wait_online e ?T2 ?m2 fuel h1")
    from wait_online_trace [OF l2] obtain a2 where a2: "h2 = h1 @ a2" "sent_payloads a2 = []"
      "\<And>ts more. follows_plan (?T2 # ts) (a2 @ more) =
          follows_plan (if o2 = Returned () then ts else ?T2 # ts) more"
      by blast
    define A where "A = (if o1 = Returned () then a1 @ a2 else a1)"
    have tr: "snd (api_log_redirect_with mac e fuel []) = h0 @ A"
      using w Inr l1 l2 a1(1) a2(1)
      by (cases o1; cases o2) (simp_all add: api_log_redirect_with_def A_def)
    have sA: "sent_payloads A = []"
      using a1(2) a2(2) by (simp add: A_def sent_payloads_append)
    have fA: "follows_plan [?T1, ?T2] A"
      using a1(3) [of "[?T2]" "a2"] a1(3) [of "[?T2]" "[]"] a2(3) [of "[]" "[]"]
      by (simp add: A_def)
    have "follows_plan [?T1, ?T2] (h0 @ A)"
      using fA follows_plan_skip [OF h0(1)] by simp
    moreover have "length (sent_payloads (h0 @ A)) = 1"
      using s0 sA by (simp add: sent_payloads_append)
    moreover have "length (sent_payloads (takeWhile (\<lambda>ev. \<not> is_probe ev) (h0 @ A))) = 1"
      using s0 sent_payloads_takeWhile [OF sA] by (simp add: tw sent_payloads_append)
    ultimately show ?thesis by (simp add: tr)
  qed
qed

lemma probe_not_sleep: "is_probe ev \<Longrightarrow> \<not> is_sleep ev"
  by (cases ev) simp_all

lemma targets_apart:
  "probe_matches ''192.168.23.22'' ev \<Longrightarrow> \<not> probe_matches ''openwebui.illerit.de'' ev"
  by (cases ev) auto

lemma targets_apart':
  "probe_matches ''openwebui.illerit.de'' ev \<Longrightarrow> \<not> probe_matches ''192.168.23.22'' ev"
  by (cases ev) auto

lemma wake_third_ping: "wake_on_lan env_third_ping AI_SERVER_MAC [] = (Inr (), wake_events)"
  by code_simp

lemma run_third_ping:
  "api_log_redirect_with AI_SERVER_MAC env_third_ping 3 [] =
     (Returned ([(''status'', JStr ''ok''), (''logged'', JBool True)], 200),
      wake_events @
      [Ping [''ping'', ''-c'', ''1'', ''-W'', ''1'', ''192.168.23.22''] (Inr 1),
       Slept 1, Printed ''Waiting for AI server to come online...'',
       Ping [''ping'', ''-c'', ''1'', ''-W'', ''1'', ''192.168.23.22''] (Inr 1),
       Slept 1, Printed ''Waiting for AI server to come online...'',
       Ping [''ping'', ''-c'', ''1'', ''-W'', ''1'', ''192.168.23.22''] (Inr 0),
       HttpGet ''http://openwebui.illerit.de'' 1 (Inr 200)])"
  by code_simp

text \<open>
  C2, as amended. If \<^verbatim>\<open>is_online\<close> answers False, False, True for the host and then
  True for the web UI, a run with room for three iterations returns: the host has been
  probed exactly three times, with a delay after each of the two failures, both before the
  one probe of the web UI, and the last event of the run is that probe, reporting the web
  UI reachable.
\<close>

theorem three_attempts:
  assumes wake: "wake_on_lan e mac [] = (Inr (), h0)"
    and p1: "is_online e ''192.168.23.22'' h0 = (Inr False, h1)"
    and p2: "is_online e ''192.168.23.22''
               (h1 @ [Slept 1, Printed ''Waiting for AI server to come online...'']) =
             (Inr False, h2)"
    and p3: "is_online e ''192.168.23.22''
               (h2 @ [Slept 1, Printed ''Waiting for AI server to come online...'']) =
             (Inr True, h3)"
    and p4: "is_online e ''openwebui.illerit.de'' h3 = (Inr True, h4)"
    and fuel: "3 \<le> fuel"
  shows "api_log_redirect_with mac e fuel [] =
           (Returned ([(''status'', JStr ''ok''), (''logged'', JBool True)], 200), h4) \<and>
         probe_log ''192.168.23.22'' h4 = [False, False, True] \<and>
         probe_log ''openwebui.illerit.de'' h4 = [True] \<and>
         length (filter is_sleep h4) = 2 \<and>
         length (filter is_sleep
           (takeWhile (\<lambda>ev. \<not> probe_matches ''openwebui.illerit.de'' ev) h4)) = 2 \<and>
         probe_matches ''openwebui.illerit.de'' (last h4) \<and> reported_reachable (last h4)"
proof -
  let ?T1 = "''192.168.23.22''" and ?T2 = "''openwebui.illerit.de''"
  let ?m1 = "''Waiting for AI server to come online...''"
  let ?m2 = "''Waiting for AI Web UI to come online...''"
  from fuel obtain k where k: "fuel = Suc (Suc (Suc k))"
    by (metis Suc_le_D numeral_3_eq_3 Suc_le_mono)
  have l1: "wait_online e ?T1 ?m1 fuel h0 = (Returned (), h3)"
    using p1 p2 p3 by (simp add: k)
  have l2: "wait_online e ?T2 ?m2 fuel h3 = (Returned (), h4)"
    using p4 by (simp add: k)
  have run: "api_log_redirect_with mac e fuel [] =
      (Returned ([(''status'', JStr ''ok''), (''logged'', JBool True)], 200), h4)"
    by (simp add: api_log_redirect_with_def wake l1 l2)
  from wake_on_lan_returns [OF wake] obtain data where
    h0: "h0 = [SocketOpened, BroadcastEnabled, SentTo data ''<broadcast>'' 9, SocketClosed,
               Printed (''Magic packet sent to '' @ strip_separators mac)]"
    by auto
  from is_online_Inr [OF p1] obtain e1 where e1: "h1 = h0 @ [e1]" "is_probe e1"
    "probe_matches ?T1 e1" "\<not> reported_reachable e1" by auto
  from is_online_Inr [OF p2] obtain e2 where e2: "h2 = h1 @ [Slept 1, Printed ?m1] @ [e2]"
    "is_probe e2" "probe_matches ?T1 e2" "\<not> reported_reachable e2" by auto
  from is_online_Inr [OF p3] obtain e3 where e3: "h3 = h2 @ [Slept 1, Printed ?m1] @ [e3]"
    "is_probe e3" "probe_matches ?T1 e3" "reported_reachable e3" by auto
  from is_online_Inr [OF p4] obtain e4 where e4: "h4 = h3 @ [e4]" "is_probe e4"
    "probe_matches ?T2 e4" "reported_reachable e4" by auto
  have h4: "h4 = h0 @ [e1, Slept 1, Printed ?m1, e2, Slept 1, Printed ?m1, e3, e4]"
    by (simp add: e1(1) e2(1) e3(1) e4(1))
  note apart = targets_apart [OF e1(3)] targets_apart [OF e2(3)] targets_apart [OF e3(3)]
    targets_apart' [OF e4(3)]
  note awake = probe_not_sleep [OF e1(2)] probe_not_sleep [OF e2(2)] probe_not_sleep [OF e3(2)]
    probe_not_sleep [OF e4(2)]
  have a: "probe_log ?T1 h4 = [False, False, True]"
    unfolding h4 h0 probe_log_def
    using e1(3,4) e2(3,4) e3(3,4) apart(4) by simp
  have b: "probe_log ?T2 h4 = [True]"
    unfolding h4 h0 probe_log_def
    using e4(3,4) apart(1-3) by simp
  have c: "length (filter is_sleep h4) = 2"
    unfolding h4 h0 using awake by simp
  have d: "length (filter is_sleep (takeWhile (\<lambda>ev. \<not> probe_matches ?T2 ev) h4)) = 2"
    unfolding h4 h0 using awake apart(1-3) e4(3) by simp
  have f: "probe_matches ?T2 (last h4) \<and> reported_reachable (last h4)"
    using e4 by simp
  from run a b c d f show ?thesis by blast
qed

theorem three_attempts_witness:
  "api_log_redirect_with AI_SERVER_MAC env_third_ping 3 [] =
     (Returned ([(''status'', JStr ''ok''), (''logged'', JBool True)], 200),
      wake_events @
      [Ping [''ping'', ''-c'', ''1'', ''-W'', ''1'', ''192.168.23.22''] (Inr 1),
       Slept 1, Printed ''Waiting for AI server to come online...'',
       Ping [''ping'', ''-c'', ''1'', ''-W'', ''1'', ''192.168.23.22''] (Inr 1),
       Slept 1, Printed ''Waiting for AI server to come online...'',
       Ping [''ping'', ''-c'', ''1'', ''-W'', ''1'', ''192.168.23.22''] (Inr 0),
       HttpGet ''http://openwebui.illerit.de'' 1 (Inr 200)]) \<and>
   probe_log ''192.168.23.22''
     (snd (api_log_redirect_with AI_SERVER_MAC env_third_ping 3 [])) = [False, False, True]"
proof -
  let ?ping = "Ping [''ping'', ''-c'', ''1'', ''-W'', ''1'', ''192.168.23.22'']"
  let ?pause = "[Slept 1, Printed ''Waiting for AI server to come online...'']"
  have p1: "is_online env_third_ping ''192.168.23.22'' wake_events =
      (Inr False, wake_events @ [?ping (Inr 1)])"
    by code_simp
  have p2: "is_online env_third_ping ''192.168.23.22'' ((wake_events @ [?ping (Inr 1)]) @ ?pause) =
      (Inr False, wake_events @ [?ping (Inr 1)] @ ?pause @ [?ping (Inr 1)])"
    by code_simp
  have p3: "is_online env_third_ping ''192.168.23.22''
        ((wake_events @ [?ping (Inr 1)] @ ?pause @ [?ping (Inr 1)]) @ ?pause) =
      (Inr True, wake_events @ [?ping (Inr 1)] @ ?pause @ [?ping (Inr 1)] @ ?pause @ [?ping (Inr 0)])"
    by code_simp
  have p4: "is_online env_third_ping ''openwebui.illerit.de''
        (wake_events @ [?ping (Inr 1)] @ ?pause @ [?ping (Inr 1)] @ ?pause @ [?ping (Inr 0)]) =
      (Inr True, wake_events @ [?ping (Inr 1)] @ ?pause @ [?ping (Inr 1)] @ ?pause @
         [?ping (Inr 0)] @ [HttpGet ''http://openwebui.illerit.de'' 1 (Inr 200)])"
    by code_simp
  have f: "(3::nat) \<le> 3" by simp
  from three_attempts [OF wake_third_ping p1 p2 p3 p4 f] show ?thesis by simp
qed

text \<open>
  The run in \<open>env_third_ping\<close>, where the answers are False, False, True and then
  True: the host is probed three times, not twice, and the run sleeps twice, not once.
\<close>

theorem three_attempts_counterexample:
  "fst (api_log_redirect env_third_ping 3 []) =
     Returned ([(''status'', JStr ''ok''), (''logged'', JBool True)], 200) \<and>
   probe_log ''192.168.23.22'' (snd (api_log_redirect env_third_ping 3 [])) =
     [False, False, True] \<and>
   probe_log ''openwebui.illerit.de'' (snd (api_log_redirect env_third_ping 3 [])) = [True] \<and>
   length (filter (probe_matches ''192.168.23.22'') (snd (api_log_redirect env_third_ping 3 []))) \<noteq> 2 \<and>
   length (filter is_sleep (snd (api_log_redirect env_third_ping 3 []))) \<noteq> 1"
  by (simp add: api_log_redirect_def run_third_ping wake_events_def probe_log_def)

theorem orchestration_order_witness:
  "list_ex is_probe (snd (api_log_redirect_with AI_SERVER_MAC env_third_ping 3 [])) \<and>
   follows_plan [''192.168.23.22'', ''openwebui.illerit.de'']
     (snd (api_log_redirect_with AI_SERVER_MAC env_third_ping 3 [])) \<and>
   length (sent_payloads (takeWhile (\<lambda>ev. \<not> is_probe ev)
     (snd (api_log_redirect_with AI_SERVER_MAC env_third_ping 3 [])))) = 1 \<and>
   fst (wake_on_lan env_third_ping AI_SERVER_MAC []) = Inr () \<and>
   length (sent_payloads (snd (api_log_redirect_with AI_SERVER_MAC env_third_ping 3 []))) = 1"
proof -
  have p: "list_ex is_probe (snd (api_log_redirect_with AI_SERVER_MAC env_third_ping 3 []))"
    by (simp add: run_third_ping)
  have w: "fst (wake_on_lan env_third_ping AI_SERVER_MAC []) = Inr ()"
    by (simp add: wake_third_ping)
  show ?thesis
    using orchestration_order [of AI_SERVER_MAC env_third_ping 3] p w by simp
qed

end
